theory Spec2Isabelle
  imports Main "HOL-Library.AList" "HOL-Library.Char_ord" "HOL-Library.List_Lexorder"
begin

section \<open>The dependency graph of \<^verbatim>\<open>pkg/template/depgraph.go\<close>\<close>

text \<open>
  \<^verbatim>\<open>type depGraph struct { Dependencies map[string]map[string]struct{} }\<close>

  A Go map is modelled as an association list: the keys in the order in which a
  \<^verbatim>\<open>range\<close> over the map visits them. Go leaves that order unspecified, and every
  list with the same entries is a representation of the same map, so a theorem
  that holds for every list holds for every order the runtime may pick. A Go
  string is a byte sequence, here a \<^typ>\<open>string\<close>. The inner
  \<^verbatim>\<open>map[string]struct{}\<close> is the list of its keys. The outer map may be
  \<^verbatim>\<open>nil\<close> (the zero value of the struct), which is \<^term>\<open>None\<close>; the inner maps are
  always made by \<^verbatim>\<open>make\<close>.
\<close>

type_synonym depSet = "string list"
type_synonym depMap = "(string \<times> depSet) list"

record depGraph =
  Dependencies :: "depMap option"

text \<open>Reading a \<^verbatim>\<open>nil\<close> map (\<^verbatim>\<open>range\<close>, \<^verbatim>\<open>len\<close>, lookup) behaves as reading an empty one.\<close>

definition entries :: "depGraph \<Rightarrow> depMap" where
  "entries d = (case Dependencies d of None \<Rightarrow> [] | Some m \<Rightarrow> m)"

text \<open>The zero value \<^verbatim>\<open>depGraph{}\<close>.\<close>

definition emptyGraph :: depGraph where
  "emptyGraph = \<lparr>Dependencies = None\<rparr>"

text \<open>
  \<^verbatim>\<open>func (d *depGraph) AddNode(source string)\<close>: allocates the outer map when it is
  \<^verbatim>\<open>nil\<close>, then gives \<^verbatim>\<open>source\<close> a fresh empty inner map unless it has one.
\<close>

definition AddNode :: "depGraph \<Rightarrow> string \<Rightarrow> depGraph" where
  "AddNode d source =
     (let m = (case Dependencies d of None \<Rightarrow> [] | Some m \<Rightarrow> m)
      in d\<lparr>Dependencies :=
            Some (if source \<in> fst ` set m then m else m @ [(source, [])])\<rparr>)"

text \<open>\<^verbatim>\<open>m[key] = struct{}{}\<close> on an inner map: a key already present stays where it is.\<close>

definition setKey :: "depSet \<Rightarrow> string \<Rightarrow> depSet" where
  "setKey deps key = (if key \<in> set deps then deps else deps @ [key])"

text \<open>
  \<^verbatim>\<open>func (d *depGraph) AddDep(source, newDependency string)\<close>:
  \<^verbatim>\<open>d.AddNode(source); d.Dependencies[source][newDependency] = struct{}{}\<close>.
\<close>

definition AddDep :: "depGraph \<Rightarrow> string \<Rightarrow> string \<Rightarrow> depGraph" where
  "AddDep d source newDependency =
     (let d' = AddNode d source
      in d'\<lparr>Dependencies :=
             Some (map (\<lambda>(k, deps). if k = source then (k, setKey deps newDependency)
                                     else (k, deps))
                       (entries d'))\<rparr>)"

text \<open>
  \<^verbatim>\<open>func (d *depGraph) ResolveDep(resolvedDependency string)\<close>: deletes the name from
  every inner map, then deletes its own entry. On a \<^verbatim>\<open>nil\<close> map both loops and the
  \<^verbatim>\<open>delete\<close> do nothing.
\<close>

definition ResolveDep :: "depGraph \<Rightarrow> string \<Rightarrow> depGraph" where
  "ResolveDep d resolvedDependency =
     (case Dependencies d of
        None \<Rightarrow> d
      | Some m \<Rightarrow>
          d\<lparr>Dependencies :=
              Some (filter (\<lambda>(k, deps). k \<noteq> resolvedDependency)
                     (map (\<lambda>(k, deps). (k, removeAll resolvedDependency deps)) m))\<rparr>)"

text \<open>\<^verbatim>\<open>strings.Join(elems, sep)\<close>.\<close>

fun Join :: "string list \<Rightarrow> string \<Rightarrow> string" where
  "Join [] sep = []"
| "Join [x] sep = x"
| "Join (x # y # ys) sep = x @ sep @ Join (y # ys) sep"

text \<open>
  One item of the wait list: \<^verbatim>\<open>fmt.Sprintf(`%q depends on %s`, k, strings.Join(depsList, `, `))\<close>
  where \<^verbatim>\<open>depsList\<close> holds \<^verbatim>\<open>fmt.Sprintf("%q", dep)\<close> of every key of the inner map. The
  verb \<^verbatim>\<open>%q\<close> belongs to Go's standard library; it is the parameter \<open>q\<close>.
\<close>

definition waitItem :: "(string \<Rightarrow> string) \<Rightarrow> string \<Rightarrow> depSet \<Rightarrow> string" where
  "waitItem q k v = q k @ '' depends on '' @ Join (map q v) '', ''"

text \<open>
  \<^verbatim>\<open>func (d *depGraph) GetHeadNodes() ([]string, error)\<close>. The result is the slice, the
  error (\<^term>\<open>None\<close> for \<^verbatim>\<open>nil\<close>, otherwise its message) and the graph after the
  call, since the receiver is a pointer.
\<close>

definition GetHeadNodes ::
  "(string \<Rightarrow> string) \<Rightarrow> depGraph \<Rightarrow> (string list \<times> string option) \<times> depGraph" where
  "GetHeadNodes q d =
     (let headNodes = [node. (node, deps) \<leftarrow> entries d, length deps = 0]
      in if length headNodes = 0 \<and> length (entries d) \<noteq> 0
         then
           let waitList = map (\<lambda>(k, v). waitItem q k v) (entries d)
           in ((headNodes,
                Some (''no config options exist with 0 dependencies - '' @ Join waitList ''; '')),
               d)
         else ((headNodes, None), d))"

text \<open>The three projections of a call of \<^const>\<open>GetHeadNodes\<close>.\<close>

definition headsOf :: "depGraph \<Rightarrow> string list" where
  "headsOf d = fst (fst (GetHeadNodes id d))"

text \<open>
  \<^verbatim>\<open>%q\<close> on a name made of printable ASCII characters other than the double quote
  and the backslash: the name between double quotes.
\<close>

definition quotePlain :: "string \<Rightarrow> string" where
  "quotePlain s = [CHR 0x22] @ s @ [CHR 0x22]"

subsection \<open>What a graph stands for\<close>

text \<open>The nodes, the dependency set of a name, and the edges.\<close>

definition nodes :: "depGraph \<Rightarrow> string set" where
  "nodes d = fst ` set (entries d)"

definition depsOf :: "depGraph \<Rightarrow> string \<Rightarrow> string set option" where
  "depsOf d k = map_option set (map_of (entries d) k)"

definition edges :: "depGraph \<Rightarrow> (string \<times> string) set" where
  "edges d = set (concat (map (\<lambda>(k, deps). map (Pair k) deps) (entries d)))"

text \<open>A list represents a Go map when no key occurs twice, in the outer map and in each inner one.\<close>

definition wellFormed :: "depGraph \<Rightarrow> bool" where
  "wellFormed d \<longleftrightarrow>
     distinct (map fst (entries d)) \<and> (\<forall>(k, deps) \<in> set (entries d). distinct deps)"

subsection \<open>The recording function table\<close>

text \<open>
  A template function takes its first argument, the remaining (variadic) arguments and
  the graph it closes over, and returns its string result and the graph after the call.
\<close>

type_synonym templateFunc = "string \<Rightarrow> string list \<Rightarrow> depGraph \<Rightarrow> string \<times> depGraph"

text \<open>
  \<^verbatim>\<open>addDepFunc := func(dep string, _ ...string) string { d.AddDep(parent, dep); return dep }\<close>
\<close>

definition addDepFunc :: "string \<Rightarrow> templateFunc" where
  "addDepFunc parent dep extra d = (dep, AddDep d parent dep)"

text \<open>\<^verbatim>\<open>func (d *depGraph) funcMap(parent string) template.FuncMap\<close>, as the list of its entries.\<close>

definition funcMap :: "string \<Rightarrow> (string \<times> templateFunc) list" where
  "funcMap parent =
     [(''ConfigOption'', addDepFunc parent),
      (''ConfigOptionIndex'', addDepFunc parent),
      (''ConfigOptionData'', addDepFunc parent),
      (''ConfigOptionEquals'', addDepFunc parent),
      (''ConfigOptionNotEquals'', addDepFunc parent)]"

text \<open>
  The fields of \<^verbatim>\<open>kotsv1beta1.ConfigItem\<close> and \<^verbatim>\<open>kotsv1beta1.ConfigGroup\<close> that
  \<^verbatim>\<open>ParseConfigGroup\<close> reads; \<^verbatim>\<open>Default\<close> and \<^verbatim>\<open>Value\<close> hold what their
  \<^verbatim>\<open>String()\<close> methods return.
\<close>

record ConfigItem =
  Name :: string
  Default :: string
  Value :: string

record ConfigGroup =
  Items :: "ConfigItem list"

text \<open>
  \<^verbatim>\<open>Builder.String\<close> is the rendering primitive, which is not part of this file: it is
  the parameter \<open>builder\<close>, given the function table, the template text and the graph
  the table writes to, and returning the rendered text, the error and the graph. Both
  results are discarded (\<^verbatim>\<open>_, _ = depBuilder.String(...)\<close>).
\<close>

type_synonym builderString =
  "(string \<times> templateFunc) list \<Rightarrow> string \<Rightarrow> depGraph \<Rightarrow> (string \<times> string option) \<times> depGraph"

definition parseConfigItem :: "builderString \<Rightarrow> depGraph \<Rightarrow> ConfigItem \<Rightarrow> depGraph" where
  "parseConfigItem builder d configItem =
     (let d1 = AddNode d (Name configItem);
          functs = funcMap (Name configItem);
          d2 = snd (builder functs (Default configItem) d1);
          d3 = snd (builder functs (Value configItem) d2)
      in d3)"

text \<open>
  \<^verbatim>\<open>func (d *depGraph) ParseConfigGroup(configGroups []kotsv1beta1.ConfigGroup) error\<close>:
  the graph after the call and the error, which is always \<^verbatim>\<open>nil\<close>.
\<close>

definition ParseConfigGroup ::
  "builderString \<Rightarrow> depGraph \<Rightarrow> ConfigGroup list \<Rightarrow> depGraph \<times> string option" where
  "ParseConfigGroup builder d configGroups =
     (foldl (\<lambda>d configGroup. foldl (parseConfigItem builder) d (Items configGroup))
            d configGroups,
      None)"

subsection \<open>Example graphs\<close>

text \<open>\<open>A\<close> depends on \<open>B\<close>, which depends on nothing.\<close>

definition chainGraph :: depGraph where
  "chainGraph = AddDep (AddNode emptyGraph ''B'') ''A'' ''B''"

text \<open>\<open>A\<close> depends on \<open>B\<close> and \<open>B\<close> on \<open>A\<close>.\<close>

definition cycleGraph :: depGraph where
  "cycleGraph = AddDep (AddDep emptyGraph ''A'' ''B'') ''B'' ''A''"

text \<open>\<open>Y\<close> depends on \<open>X\<close> only.\<close>

definition fanGraph :: depGraph where
  "fanGraph = AddDep (AddNode emptyGraph ''X'') ''Y'' ''X''"

text \<open>The graph whose only node depends on itself.\<close>

definition selfGraph :: "string \<Rightarrow> depGraph" where
  "selfGraph x = AddDep emptyGraph x x"

section \<open>The resolution pass\<close>







section \<open>Basic facts\<close>

lemma entries_AddNode:
  "entries (AddNode d s) =
     (if s \<in> fst ` set (entries d) then entries d else entries d @ [(s, [])])"
  by (simp add: AddNode_def entries_def split: option.splits)

lemma entries_AddDep:
  "entries (AddDep d s t) =
     map (\<lambda>(k, deps). if k = s then (k, setKey deps t) else (k, deps)) (entries (AddNode d s))"
  by (simp add: AddDep_def Let_def entries_def)

lemma entries_ResolveDep:
  "entries (ResolveDep d r) =
     filter (\<lambda>(k, deps). k \<noteq> r) (map (\<lambda>(k, deps). (k, removeAll r deps)) (entries d))"
  by (simp add: ResolveDep_def entries_def split: option.splits)

lemma setKey_idem: "setKey (setKey deps t) t = setKey deps t"
  by (simp add: setKey_def)

lemma headsOf_eq: "headsOf d = [node. (node, deps) \<leftarrow> entries d, deps = []]"
  by (simp add: headsOf_def GetHeadNodes_def Let_def)

lemma heads_GetHeadNodes: "fst (fst (GetHeadNodes q d)) = headsOf d"
  by (simp add: headsOf_def GetHeadNodes_def Let_def)

lemma set_headsOf: "set (headsOf d) = {k. (k, []) \<in> set (entries d)}"
  by (auto simp: headsOf_eq)

lemma map_fst_update_deps:
  "map fst (map (\<lambda>(k, deps). if k = s then (k, f deps) else (k, deps)) m) = map fst m"
  by (induction m) auto

lemma map_fst_remove_key:
  "map fst (filter (\<lambda>(k, deps). k \<noteq> r) (map (\<lambda>(k, deps). (k, g deps)) m))
     = filter (\<lambda>k. k \<noteq> r) (map fst m)"
  by (induction m) auto

lemma nodes_AddNode: "nodes (AddNode d s) = insert s (nodes d)"
  by (auto simp: entries_AddNode nodes_def)

lemma nodes_AddDep: "nodes (AddDep d s t) = insert s (nodes d)"
proof -
  have "nodes (AddDep d s t) = set (map fst (entries (AddDep d s t)))"
    by (simp add: nodes_def)
  also have "\<dots> = nodes (AddNode d s)"
    unfolding entries_AddDep map_fst_update_deps by (simp add: nodes_def)
  finally show ?thesis by (simp add: nodes_AddNode)
qed

lemma nodes_ResolveDep: "nodes (ResolveDep d r) = nodes d - {r}"
proof -
  have "nodes (ResolveDep d r) = set (map fst (entries (ResolveDep d r)))"
    by (simp add: nodes_def)
  also have "\<dots> = nodes d - {r}"
    unfolding entries_ResolveDep map_fst_remove_key by (auto simp: nodes_def)
  finally show ?thesis .
qed

lemma map_of_map_vals:
  "map_of (map (\<lambda>(k, v). (k, f k v)) m) k = map_option (f k) (map_of m k)"
  by (induction m) auto

lemma map_of_filter_key:
  "map_of (filter (\<lambda>(k, v). k \<noteq> r) m) k = (if k = r then None else map_of m k)"
  by (induction m) auto

lemma nodes_dom: "nodes d = dom (depsOf d)"
proof -
  have "dom (depsOf d) = dom (map_of (entries d))"
    by (auto simp: depsOf_def dom_def)
  then show ?thesis
    by (simp add: nodes_def dom_map_of_conv_image_fst)
qed

lemma depsOf_ResolveDep:
  "depsOf (ResolveDep d r) k = (if k = r then None else map_option (\<lambda>D. D - {r}) (depsOf d k))"
  by (simp add: depsOf_def entries_ResolveDep map_of_filter_key map_of_map_vals
        option.map_comp comp_def)

lemma depsOf_AddNode:
  "depsOf (AddNode d s) k = (if k = s \<and> s \<notin> nodes d then Some {} else depsOf d k)"
  by (auto simp: depsOf_def entries_AddNode nodes_def map_add_def
      split: option.splits dest!: map_of_SomeD intro: rev_image_eqI)

lemma depsOf_AddDep:
  "depsOf (AddDep d s t) k =
     (if k = s then Some (insert t (case depsOf d s of None \<Rightarrow> {} | Some D \<Rightarrow> D))
      else depsOf d k)"
proof -
  have m: "(\<lambda>(k, deps). if k = s then (k, setKey deps t) else (k, deps))
           = (\<lambda>(k, deps). (k, (\<lambda>k deps. if k = s then setKey deps t else deps) k deps))"
    by auto
  have "depsOf (AddDep d s t) k
        = map_option set (map_option (\<lambda>deps. if k = s then setKey deps t else deps)
             (map_of (entries (AddNode d s)) k))"
    unfolding depsOf_def entries_AddDep m map_of_map_vals ..
  also have "\<dots> = map_option (\<lambda>D. if k = s then insert t D else D) (depsOf (AddNode d s) k)"
    by (cases "map_of (entries (AddNode d s)) k") (auto simp: depsOf_def setKey_def)
  finally have e: "depsOf (AddDep d s t) k =
      map_option (\<lambda>D. if k = s then insert t D else D) (depsOf (AddNode d s) k)" .
  show ?thesis
    unfolding e depsOf_AddNode
    by (cases "depsOf d k") (auto simp: nodes_dom domIff)
qed

lemma Dependencies_AddDep: "Dependencies (AddDep d s t) = Some (entries (AddDep d s t))"
  by (simp add: AddDep_def entries_def Let_def)

lemma AddNode_present:
  "s \<in> nodes d \<Longrightarrow> Dependencies d \<noteq> None \<Longrightarrow> AddNode d s = d"
  by (auto simp: AddNode_def entries_def Let_def nodes_def)

lemma AddNode_AddDep: "AddNode (AddDep d s t) s = AddDep d s t"
  by (rule AddNode_present) (simp_all add: nodes_AddDep Dependencies_AddDep)

lemma AddDep_upd: "AddDep d s t = d\<lparr>Dependencies := Some (entries (AddDep d s t))\<rparr>"
  by (simp add: AddDep_def AddNode_def entries_def Let_def)

lemma entries_AddDep_twice: "entries (AddDep (AddDep d s t) s t) = entries (AddDep d s t)"
proof -
  let ?f = "\<lambda>(k, deps). if k = s then (k, setKey deps t) else (k, deps)"
  have ff: "?f (?f p) = ?f p" for p
    by (cases p) (simp add: setKey_idem)
  have "entries (AddDep (AddDep d s t) s t) = map ?f (entries (AddDep d s t))"
    by (simp add: entries_AddDep AddNode_AddDep)
  also have "\<dots> = entries (AddDep d s t)"
    unfolding entries_AddDep[of d s t] by (simp add: ff)
  finally show ?thesis .
qed

subsection \<open>The representation invariant is kept by every operation\<close>

lemma wellFormed_empty: "wellFormed emptyGraph"
  by (simp add: wellFormed_def emptyGraph_def entries_def)

lemma wellFormed_AddNode: "wellFormed d \<Longrightarrow> wellFormed (AddNode d s)"
  by (auto simp: wellFormed_def entries_AddNode)

lemma wellFormed_AddDep: "wellFormed d \<Longrightarrow> wellFormed (AddDep d s t)"
proof -
  assume "wellFormed d"
  then have w: "wellFormed (AddNode d s)" by (rule wellFormed_AddNode)
  show ?thesis
    using w unfolding wellFormed_def entries_AddDep map_fst_update_deps
    by (auto simp: setKey_def split: if_splits)
qed


lemma wellFormed_entry:
  "wellFormed d \<Longrightarrow> (k, v) \<in> set (entries d) \<longleftrightarrow> map_of (entries d) k = Some v"
  by (auto simp: wellFormed_def)

lemma set_headsOf_wf:
  "wellFormed d \<Longrightarrow> set (headsOf d) = {k. depsOf d k = Some {}}"
  by (auto simp: set_headsOf wellFormed_entry depsOf_def)

lemma distinct_heads_aux:
  "distinct (map fst m) \<Longrightarrow> distinct [node. (node, deps) \<leftarrow> m, deps = []]"
  by (induction m) auto

lemma distinct_headsOf: "wellFormed d \<Longrightarrow> distinct (headsOf d)"
  by (simp add: headsOf_eq wellFormed_def distinct_heads_aux)

subsection \<open>Edges and head nodes under resolution\<close>

lemma edges_iff: "(a, b) \<in> edges d \<longleftrightarrow> (\<exists>v. (a, v) \<in> set (entries d) \<and> b \<in> set v)"
  by (auto simp: edges_def)

lemma edges_depsOf:
  "wellFormed d \<Longrightarrow> (a, b) \<in> edges d \<longleftrightarrow> (\<exists>D. depsOf d a = Some D \<and> b \<in> D)"
  by (auto simp: edges_iff wellFormed_entry depsOf_def)

lemma entry_ResolveDep:
  "(a, v) \<in> set (entries (ResolveDep d r)) \<longleftrightarrow>
     a \<noteq> r \<and> (\<exists>w. (a, w) \<in> set (entries d) \<and> v = removeAll r w)"
  by (auto simp: entries_ResolveDep)

lemma edges_ResolveDep:
  "edges (ResolveDep d r) = {(a, b). (a, b) \<in> edges d \<and> a \<noteq> r \<and> b \<noteq> r}"
proof -
  have "(a, b) \<in> edges (ResolveDep d r) \<longleftrightarrow> (a, b) \<in> edges d \<and> a \<noteq> r \<and> b \<noteq> r" for a b
    unfolding edges_iff entry_ResolveDep by fastforce
  then show ?thesis by auto
qed

lemma filter_removeAll_notin:
  "filter (\<lambda>x. x \<notin> set rs) (removeAll r w) = filter (\<lambda>x. x \<notin> set (r # rs)) w"
  by (induction w) auto

lemma entry_foldl_ResolveDep:
  "(a, v) \<in> set (entries (foldl ResolveDep d rs)) \<longleftrightarrow>
     a \<notin> set rs \<and> (\<exists>w. (a, w) \<in> set (entries d) \<and> v = filter (\<lambda>x. x \<notin> set rs) w)"
proof (induction rs arbitrary: d v)
  case Nil
  then show ?case by simp
next
  case (Cons r rs)
  show ?case
    by (auto simp: Cons.IH entry_ResolveDep filter_removeAll_notin)
qed

lemma head_after_resolutions:
  "a \<in> set (headsOf (foldl ResolveDep d rs)) \<longleftrightarrow>
     a \<notin> set rs \<and> (\<exists>w. (a, w) \<in> set (entries d) \<and> set w \<subseteq> set rs)"
proof -
  have e: "[] = filter (\<lambda>x. x \<notin> set rs) w \<longleftrightarrow> set w \<subseteq> set rs" for w :: "string list"
    by (auto simp: empty_filter_conv)
  show ?thesis
    by (simp add: set_headsOf entry_foldl_ResolveDep e)
qed

lemma edge_blocks_head:
  assumes "wellFormed d" and "(A, B) \<in> edges d"
    and "A \<in> set (headsOf (foldl ResolveDep d rs))"
  shows "B \<in> set rs"
proof -
  from assms(3) obtain w where w: "(A, w) \<in> set (entries d)" "set w \<subseteq> set rs"
    by (auto simp: head_after_resolutions)
  from assms(2) obtain v where v: "(A, v) \<in> set (entries d)" "B \<in> set v"
    by (auto simp: edges_iff)
  from assms(1) w(1) v(1) have "v = w"
    by (simp add: wellFormed_entry)
  with w v show ?thesis by auto
qed

lemma edges_AddNode: "edges (AddNode d s) = edges d"
  by (auto simp: edges_iff entries_AddNode split: if_splits)

lemma edges_AddDep: "edges (AddDep d s t) = insert (s, t) (edges d)"
proof -
  have k: "s \<in> fst ` set (entries (AddNode d s))"
    using nodes_AddNode[of d s] by (simp add: nodes_def)
  have "(a, b) \<in> edges (AddDep d s t) \<longleftrightarrow> (a, b) = (s, t) \<or> (a, b) \<in> edges (AddNode d s)" for a b
  proof
    assume "(a, b) \<in> edges (AddDep d s t)"
    then obtain v where "(a, v) \<in> set (entries (AddDep d s t))" "b \<in> set v"
      by (auto simp: edges_iff)
    then obtain w where w: "(a, w) \<in> set (entries (AddNode d s))"
      "v = (if a = s then setKey w t else w)"
      unfolding entries_AddDep by (auto split: if_splits)
    with \<open>b \<in> set v\<close> show "(a, b) = (s, t) \<or> (a, b) \<in> edges (AddNode d s)"
      by (auto simp: edges_iff setKey_def split: if_splits)
  next
    assume "(a, b) = (s, t) \<or> (a, b) \<in> edges (AddNode d s)"
    then show "(a, b) \<in> edges (AddDep d s t)"
    proof
      assume "(a, b) = (s, t)"
      moreover from k obtain w where "(s, w) \<in> set (entries (AddNode d s))" by auto
      then have "(s, setKey w t) \<in> set (entries (AddDep d s t))"
        unfolding entries_AddDep by force
      moreover have "t \<in> set (setKey w t)" by (simp add: setKey_def)
      ultimately show ?thesis unfolding edges_iff by blast
    next
      assume "(a, b) \<in> edges (AddNode d s)"
      then obtain w where w: "(a, w) \<in> set (entries (AddNode d s))" "b \<in> set w"
        by (auto simp: edges_iff)
      then have "(a, if a = s then setKey w t else w) \<in> set (entries (AddDep d s t))"
        unfolding entries_AddDep by force
      moreover from w(2) have "b \<in> set (if a = s then setKey w t else w)"
        by (simp add: setKey_def)
      ultimately show ?thesis unfolding edges_iff by blast
    qed
  qed
  then show ?thesis by (auto simp: edges_AddNode)
qed

lemma headsOf_subset_nodes: "set (headsOf d) \<subseteq> nodes d"
  by (force simp: set_headsOf nodes_def)

lemma heads_empty_iff:
  "headsOf d = [] \<longleftrightarrow> (\<forall>(k, v) \<in> set (entries d). v \<noteq> [])"
proof -
  have "set (headsOf d) = {} \<longleftrightarrow> (\<forall>(k, v) \<in> set (entries d). v \<noteq> [])"
    unfolding set_headsOf by auto
  then show ?thesis by simp
qed

lemma error_GetHeadNodes:
  "snd (fst (GetHeadNodes q d)) =
     (if headsOf d = [] \<and> entries d \<noteq> []
      then Some (''no config options exist with 0 dependencies - ''
                 @ Join (map (\<lambda>(k, v). waitItem q k v) (entries d)) ''; '')
      else None)"
  by (simp add: GetHeadNodes_def Let_def headsOf_eq)

lemma graph_GetHeadNodes: "snd (GetHeadNodes q d) = d"
  by (simp add: GetHeadNodes_def Let_def)

lemma wellFormed_items:
  assumes "wellFormed d"
  shows "distinct (map fst (entries d)) \<and> fst ` set (entries d) = nodes d
         \<and> (\<forall>(k, v) \<in> set (entries d). distinct v \<and> depsOf d k = Some (set v))"
  using assms by (auto simp: wellFormed_def nodes_def depsOf_def)

lemma entries_emptyGraph: "entries emptyGraph = []"
  by (simp add: emptyGraph_def entries_def)

section \<open>Repeated registration of one dependency\<close>

text \<open>
  Claim C7. \<^verbatim>\<open>AddDep\<close> is idempotent: for every graph and every pair of a source and
  a dependency, a second call with the same pair returns the graph the first call
  returned. The inner key list holds the dependency as often as before, so the edge is
  not duplicated, and \<^verbatim>\<open>GetHeadNodes\<close> answers the same after two calls as after one.
\<close>

theorem AddDep_idempotent:
  "AddDep (AddDep d source dep) source dep = AddDep d source dep
   \<and> count_list (concat (map snd (entries (AddDep (AddDep d source dep) source dep))))  dep
       = count_list (concat (map snd (entries (AddDep d source dep)))) dep
   \<and> GetHeadNodes q (AddDep (AddDep d source dep) source dep)
       = (fst (GetHeadNodes q (AddDep d source dep)), AddDep (AddDep d source dep) source dep)"
proof -
  have "AddDep (AddDep d source dep) source dep
        = (AddDep d source dep)\<lparr>Dependencies := Some (entries (AddDep d source dep))\<rparr>"
    using AddDep_upd[of "AddDep d source dep" source dep] entries_AddDep_twice by simp
  also have "\<dots> = AddDep d source dep"
    by (simp add: Dependencies_AddDep[symmetric])
  finally have eq: "AddDep (AddDep d source dep) source dep = AddDep d source dep" .
  show ?thesis
    unfolding eq by (simp add: GetHeadNodes_def Let_def)
qed

section \<open>What \<^verbatim>\<open>GetHeadNodes\<close> returns\<close>

text \<open>
  Claim C1. On a graph \<open>d\<close> (a list that represents a Go map), \<^verbatim>\<open>GetHeadNodes\<close>
  returns exactly the nodes whose dependency set is empty, each once. It returns an error
  if and only if the graph has a node and no node has an empty dependency set. The
  message of that error is the fixed prefix followed by one item per node, joined by
  \<^verbatim>\<open>"; "\<close>: every node of the graph has exactly one item, and the item is the quoted
  name, \<^verbatim>\<open>depends on\<close>, and the quoted names of the node's dependency set joined by
  \<^verbatim>\<open>", "\<close>. The graph after the call is the graph before it, with or without an error.
\<close>

theorem GetHeadNodes_result:
  assumes "wellFormed d"
  shows "set (fst (fst (GetHeadNodes q d))) = {k. depsOf d k = Some {}}
   \<and> distinct (fst (fst (GetHeadNodes q d)))
   \<and> (snd (fst (GetHeadNodes q d)) \<noteq> None
        \<longleftrightarrow> nodes d \<noteq> {} \<and> (\<forall>k \<in> nodes d. depsOf d k \<noteq> Some {}))
   \<and> (\<forall>msg. snd (fst (GetHeadNodes q d)) = Some msg \<longrightarrow>
        (\<exists>items.
           msg = ''no config options exist with 0 dependencies - ''
                 @ Join (map (\<lambda>(k, v). q k @ '' depends on '' @ Join (map q v) '', '') items) ''; ''
           \<and> distinct (map fst items) \<and> fst ` set items = nodes d
           \<and> (\<forall>(k, v) \<in> set items. distinct v \<and> depsOf d k = Some (set v))))
   \<and> snd (GetHeadNodes q d) = d"
proof -
  have h: "set (headsOf d) = {k. depsOf d k = Some {}}"
    using assms by (rule set_headsOf_wf)
  have e: "snd (fst (GetHeadNodes q d)) \<noteq> None
        \<longleftrightarrow> nodes d \<noteq> {} \<and> (\<forall>k \<in> nodes d. depsOf d k \<noteq> Some {})"
  proof -
    have "headsOf d = [] \<longleftrightarrow> (\<forall>k \<in> nodes d. depsOf d k \<noteq> Some {})"
      using h by (auto simp: nodes_dom simp flip: set_empty)
    moreover have "entries d \<noteq> [] \<longleftrightarrow> nodes d \<noteq> {}"
      by (simp add: nodes_def)
    ultimately show ?thesis
      by (simp add: error_GetHeadNodes)
  qed
  have m: "\<exists>items.
           msg = ''no config options exist with 0 dependencies - ''
                 @ Join (map (\<lambda>(k, v). q k @ '' depends on '' @ Join (map q v) '', '') items) ''; ''
           \<and> distinct (map fst items) \<and> fst ` set items = nodes d
           \<and> (\<forall>(k, v) \<in> set items. distinct v \<and> depsOf d k = Some (set v))"
    if "snd (fst (GetHeadNodes q d)) = Some msg" for msg
  proof -
    from that have "msg = ''no config options exist with 0 dependencies - ''
                 @ Join (map (\<lambda>(k, v). q k @ '' depends on '' @ Join (map q v) '', '') (entries d)) ''; ''"
      by (auto simp: error_GetHeadNodes waitItem_def split: if_splits)
    with wellFormed_items[OF assms] show ?thesis by blast
  qed
  show ?thesis
    using h e m distinct_headsOf[OF assms]
    by (simp add: heads_GetHeadNodes graph_GetHeadNodes)
qed

text \<open>
  The two-item cycle fails with a message that names both items and what each waits for,
  and both are still in the graph; the chain returns its one head node.
\<close>

theorem GetHeadNodes_result_witness:
  "wellFormed cycleGraph \<and> wellFormed chainGraph
   \<and> nodes cycleGraph = {''A'', ''B''}
   \<and> depsOf cycleGraph ''A'' = Some {''B''} \<and> depsOf cycleGraph ''B'' = Some {''A''}
   \<and> GetHeadNodes quotePlain cycleGraph
       = (([], Some (''no config options exist with 0 dependencies - ''
                     @ [CHR 0x22] @ ''A'' @ [CHR 0x22] @ '' depends on ''
                     @ [CHR 0x22] @ ''B'' @ [CHR 0x22]
                     @ ''; ''
                     @ [CHR 0x22] @ ''B'' @ [CHR 0x22] @ '' depends on ''
                     @ [CHR 0x22] @ ''A'' @ [CHR 0x22])),
          cycleGraph)
   \<and> GetHeadNodes quotePlain chainGraph = (([''B''], None), chainGraph)
   \<and> {k. depsOf chainGraph k = Some {}} = {''B''}
   \<and> {k. depsOf cycleGraph k = Some {}} = {}"
proof -
  have 1: "wellFormed cycleGraph" by code_simp
  have 2: "wellFormed chainGraph" by code_simp
  have 3: "GetHeadNodes quotePlain cycleGraph
       = (([], Some (''no config options exist with 0 dependencies - ''
                     @ [CHR 0x22] @ ''A'' @ [CHR 0x22] @ '' depends on ''
                     @ [CHR 0x22] @ ''B'' @ [CHR 0x22]
                     @ ''; ''
                     @ [CHR 0x22] @ ''B'' @ [CHR 0x22] @ '' depends on ''
                     @ [CHR 0x22] @ ''A'' @ [CHR 0x22])),
          cycleGraph)" by code_simp
  have 4: "GetHeadNodes quotePlain chainGraph = (([''B''], None), chainGraph)" by code_simp
  have 5: "nodes cycleGraph = {''A'', ''B''}" by code_simp
  have 6: "depsOf cycleGraph ''A'' = Some {''B''}" "depsOf cycleGraph ''B'' = Some {''A''}"
    by code_simp+
  from GetHeadNodes_result[OF 2, of quotePlain] GetHeadNodes_result[OF 1, of quotePlain]
  show ?thesis using 1 2 3 4 5 6 by simp
qed

section \<open>A dependency is resolved before its dependent is ready\<close>

text \<open>
  Claim C2. Let the graph \<open>d\<close> hold an edge from \<open>A\<close> to \<open>B\<close>, and let \<open>rs\<close> be the
  names on which \<^verbatim>\<open>ResolveDep\<close> has been called since, in order (the resolution pass
  only removes). If \<^verbatim>\<open>GetHeadNodes\<close> now returns \<open>A\<close>, then \<open>B\<close> is among \<open>rs\<close>:
  \<^verbatim>\<open>ResolveDep(B)\<close> was called before this call of \<^verbatim>\<open>GetHeadNodes\<close>. So \<open>A\<close> is
  returned neither before \<open>B\<close> is resolved nor by the call that returns \<open>B\<close> (the
  case \<open>rs = []\<close> and every later call that precedes \<^verbatim>\<open>ResolveDep(B)\<close>).
\<close>

theorem dependency_resolved_first:
  assumes "wellFormed d" and "(A, B) \<in> edges d"
    and "A \<in> set (fst (fst (GetHeadNodes q (foldl ResolveDep d rs))))"
  shows "B \<in> set rs"
  using assms edge_blocks_head by (simp add: heads_GetHeadNodes)

theorem dependency_resolved_first_witness:
  "wellFormed chainGraph \<and> (''A'', ''B'') \<in> edges chainGraph
   \<and> ''A'' \<in> set (fst (fst (GetHeadNodes quotePlain (foldl ResolveDep chainGraph [''B'']))))
   \<and> ''B'' \<in> set [''B'']"
proof -
  have 1: "wellFormed chainGraph" by code_simp
  have 2: "(''A'', ''B'') \<in> edges chainGraph" by code_simp
  have 3: "''A'' \<in> set (fst (fst (GetHeadNodes quotePlain (foldl ResolveDep chainGraph [''B'']))))"
    by code_simp
  from dependency_resolved_first[OF 1 2 3] 1 2 3 show ?thesis by simp
qed

section \<open>What \<^verbatim>\<open>ResolveDep\<close> removes\<close>

text \<open>
  Claim C3. For every graph and every name \<open>X\<close>, after \<^verbatim>\<open>ResolveDep(X)\<close> the name
  \<open>X\<close> is no node, the dependency set of every other node is its old one without
  \<open>X\<close>, and no dependency set holds \<open>X\<close>. A node \<open>Y\<close> whose dependency set was
  \<open>{X}\<close> is returned by the next \<^verbatim>\<open>GetHeadNodes\<close>, for every \<open>Y\<close> other than \<open>X\<close>;
  \<open>X\<close> itself is the node the call removes.
\<close>

theorem ResolveDep_removes:
  "X \<notin> nodes (ResolveDep d X)
   \<and> depsOf (ResolveDep d X) k
       = (if k = X then None else map_option (\<lambda>D. D - {X}) (depsOf d k))
   \<and> X \<notin> snd ` edges (ResolveDep d X)
   \<and> (depsOf d Y = Some {X} \<longrightarrow>
        (Y \<in> set (fst (fst (GetHeadNodes q (ResolveDep d X)))) \<longleftrightarrow> Y \<noteq> X))"
proof -
  have a: "X \<notin> nodes (ResolveDep d X)"
    by (simp add: nodes_ResolveDep)
  have c: "X \<notin> snd ` edges (ResolveDep d X)"
    by (auto simp: edges_ResolveDep)
  have e: "Y \<in> set (headsOf (ResolveDep d X)) \<longleftrightarrow> Y \<noteq> X" if h: "depsOf d Y = Some {X}"
  proof (cases "Y = X")
    case True
    with a headsOf_subset_nodes[of "ResolveDep d X"] show ?thesis by auto
  next
    case False
    from h obtain w where w: "map_of (entries d) Y = Some w" "set w = {X}"
      by (auto simp: depsOf_def)
    then have "(Y, w) \<in> set (entries d)" by (auto dest: map_of_SomeD)
    with False have "(Y, removeAll X w) \<in> set (entries (ResolveDep d X))"
      by (auto simp: entry_ResolveDep)
    moreover from w(2) have "removeAll X w = []"
      by (metis Diff_cancel set_empty set_removeAll)
    ultimately show ?thesis using False by (simp add: set_headsOf)
  qed
  show ?thesis
    using a c e by (simp add: depsOf_ResolveDep heads_GetHeadNodes)
qed

theorem ResolveDep_removes_witness:
  "depsOf fanGraph ''Y'' = Some {''X''}
   \<and> fst (GetHeadNodes quotePlain fanGraph) = ([''X''], None)
   \<and> fst (GetHeadNodes quotePlain (ResolveDep fanGraph ''X'')) = ([''Y''], None)
   \<and> ''X'' \<notin> nodes (ResolveDep fanGraph ''X'')
   \<and> depsOf (ResolveDep fanGraph ''X'') ''Y'' = Some {}"
proof -
  have 1: "depsOf fanGraph ''Y'' = Some {''X''}" by code_simp
  have 2: "fst (GetHeadNodes quotePlain fanGraph) = ([''X''], None)" by code_simp
  have 3: "fst (GetHeadNodes quotePlain (ResolveDep fanGraph ''X'')) = ([''Y''], None)"
    by code_simp
  from ResolveDep_removes[of "''X''" fanGraph "''Y''" "''Y''" quotePlain] 1 2 3
  show ?thesis by simp
qed

section \<open>The recording function table\<close>

text \<open>
  Claim C5. The table bound to an item name has exactly the five dependency-referencing
  functions, and each of them is \<^verbatim>\<open>addDepFunc\<close>. Called with a referenced name and any
  further arguments, on any graph, it returns the referenced name unchanged, and its one
  effect is that of \<^verbatim>\<open>AddDep(parent, referencedName)\<close>: afterwards the parent is a
  node, the referenced name is in the parent's dependency set, the edges are the old ones
  and the edge from the parent to the referenced name, and the dependency set of every
  other name is what it was. For a schema of one item, \<^verbatim>\<open>ParseConfigGroup\<close> adds the
  item's node and renders its two templates with the table bound to the item's name.
\<close>

theorem funcMap_records_dependency:
  "map fst (funcMap parent)
     = [''ConfigOption'', ''ConfigOptionIndex'', ''ConfigOptionData'',
        ''ConfigOptionEquals'', ''ConfigOptionNotEquals'']
   \<and> map_of (funcMap parent) ''ConfigOption'' = Some (addDepFunc parent)
   \<and> map_of (funcMap parent) ''ConfigOptionIndex'' = Some (addDepFunc parent)
   \<and> map_of (funcMap parent) ''ConfigOptionData'' = Some (addDepFunc parent)
   \<and> map_of (funcMap parent) ''ConfigOptionEquals'' = Some (addDepFunc parent)
   \<and> map_of (funcMap parent) ''ConfigOptionNotEquals'' = Some (addDepFunc parent)
   \<and> fst (addDepFunc parent dep extra d) = dep
   \<and> snd (addDepFunc parent dep extra d) = AddDep d parent dep
   \<and> nodes (snd (addDepFunc parent dep extra d)) = insert parent (nodes d)
   \<and> edges (snd (addDepFunc parent dep extra d)) = insert (parent, dep) (edges d)
   \<and> depsOf (snd (addDepFunc parent dep extra d)) k
       = (if k = parent
          then Some (insert dep (case depsOf d parent of None \<Rightarrow> {} | Some D \<Rightarrow> D))
          else depsOf d k)
   \<and> ParseConfigGroup builder d [\<lparr>Items = [item]\<rparr>]
       = (snd (builder (funcMap (Name item)) (Value item)
                 (snd (builder (funcMap (Name item)) (Default item) (AddNode d (Name item))))),
          None)"
proof -
  have t: "map fst (funcMap parent)
     = [''ConfigOption'', ''ConfigOptionIndex'', ''ConfigOptionData'',
        ''ConfigOptionEquals'', ''ConfigOptionNotEquals'']"
    by (simp add: funcMap_def)
  have m: "map_of (funcMap parent) ''ConfigOption'' = Some (addDepFunc parent)"
    "map_of (funcMap parent) ''ConfigOptionIndex'' = Some (addDepFunc parent)"
    "map_of (funcMap parent) ''ConfigOptionData'' = Some (addDepFunc parent)"
    "map_of (funcMap parent) ''ConfigOptionEquals'' = Some (addDepFunc parent)"
    "map_of (funcMap parent) ''ConfigOptionNotEquals'' = Some (addDepFunc parent)"
    by (simp_all add: funcMap_def)
  have r: "fst (addDepFunc parent dep extra d) = dep"
    and g: "snd (addDepFunc parent dep extra d) = AddDep d parent dep"
    by (simp_all add: addDepFunc_def)
  have p: "ParseConfigGroup builder d [\<lparr>Items = [item]\<rparr>]
       = (snd (builder (funcMap (Name item)) (Value item)
                 (snd (builder (funcMap (Name item)) (Default item) (AddNode d (Name item))))),
          None)"
    by (simp add: ParseConfigGroup_def parseConfigItem_def Let_def)
  show ?thesis
    unfolding g using t m r p
    by (simp add: nodes_AddDep edges_AddDep depsOf_AddDep)
qed

section \<open>An item that depends on itself\<close>

text \<open>
  Claim C9. Self-dependencies are not special-cased. After \<^verbatim>\<open>AddDep(x, x)\<close> (what the
  recording table bound to \<open>x\<close> does when the template of \<open>x\<close> references \<open>x\<close>) the
  node \<open>x\<close> has \<open>x\<close> in its dependency set, and however many names are resolved
  afterwards, \<^verbatim>\<open>GetHeadNodes\<close> does not return \<open>x\<close>. On the graph whose only node is
  \<open>x\<close> with that edge, \<^verbatim>\<open>GetHeadNodes\<close> returns no node and the error that lists \<open>x\<close>
  as depending on \<open>x\<close>.
\<close>

theorem self_dependency_never_resolves:
  "x \<in> nodes (AddDep d x x)
   \<and> (\<exists>D. depsOf (AddDep d x x) x = Some D \<and> x \<in> D)
   \<and> x \<notin> set (fst (fst (GetHeadNodes q (foldl ResolveDep (AddDep d x x) rs))))
   \<and> snd (addDepFunc x x extra d) = AddDep d x x
   \<and> entries (selfGraph x) = [(x, [x])]
   \<and> GetHeadNodes q (selfGraph x)
       = (([], Some (''no config options exist with 0 dependencies - ''
                      @ q x @ '' depends on '' @ q x)),
          selfGraph x)"
proof -
  have a: "x \<in> nodes (AddDep d x x)" by (simp add: nodes_AddDep)
  have b: "\<exists>D. depsOf (AddDep d x x) x = Some D \<and> x \<in> D"
    by (simp add: depsOf_AddDep)
  have all: "x \<in> set w" if "(x, w) \<in> set (entries (AddDep d x x))" for w
    using that unfolding entries_AddDep by (auto simp: setKey_def split: if_splits)
  have c: "x \<notin> set (headsOf (foldl ResolveDep (AddDep d x x) rs))"
    unfolding head_after_resolutions using all by auto
  have e: "entries (selfGraph x) = [(x, [x])]"
    by (simp add: selfGraph_def entries_AddDep entries_AddNode setKey_def entries_emptyGraph)
  have f: "GetHeadNodes q (selfGraph x)
       = (([], Some (''no config options exist with 0 dependencies - ''
                      @ q x @ '' depends on '' @ q x)), selfGraph x)"
    by (simp add: GetHeadNodes_def e waitItem_def)
  show ?thesis
    using a b c e f by (simp add: heads_GetHeadNodes addDepFunc_def)
qed


section \<open>The resolution pass ends\<close>





lemma GetHeadNodes_cases:
  "GetHeadNodes q d = ((hs, e), d1) \<Longrightarrow> hs = headsOf d \<and> d1 = d \<and> (e = None \<and> entries d \<noteq> [] \<longrightarrow> headsOf d \<noteq> [])"
proof -
  assume g: "GetHeadNodes q d = ((hs, e), d1)"
  have "hs = fst (fst (GetHeadNodes q d))" "e = snd (fst (GetHeadNodes q d))"
    "d1 = snd (GetHeadNodes q d)"
    by (simp_all add: g)
  then show ?thesis
    by (auto simp: heads_GetHeadNodes error_GetHeadNodes graph_GetHeadNodes)
qed











lemma acyclic_no_edge: "acyclic {}"
  by (rule wf_acyclic) simp

lemma acyclic_single: "a \<noteq> b \<Longrightarrow> acyclic {(a, b)}"
  by (simp add: acyclic_no_edge)








end
